theory Spec2Isabelle
  imports Complex_Main
begin

section \<open>The serial-port watchdog of GoSynch.py\<close>

text \<open>
  The development embeds the class \<^verbatim>\<open>SerialMonitorThread\<close> (its constructor, \<^verbatim>\<open>run\<close> and
  \<^verbatim>\<open>stop\<close>) and the methods of \<^verbatim>\<open>SerialMonitorApp\<close> that create and discard such a
  thread. Everything the thread asks of the outside world (the result of opening the port,
  of \<^verbatim>\<open>in_waiting\<close>, of \<^verbatim>\<open>readline\<close>, every reading of the clock, and whether \<^verbatim>\<open>stop\<close> has
  been called from the other thread) is an explicit input.
\<close>

subsection \<open>Data\<close>

text \<open>
  A \<^verbatim>\<open>datetime\<close> has microsecond resolution, and the difference of two of them is an exact
  number of microseconds: a timestamp is a number of microseconds, as an integer.
\<close>

type_synonym timestamp = int

text \<open>A decoded Python \<^verbatim>\<open>str\<close> is a list of Unicode code points.\<close>

type_synonym py_str = "nat list"

text \<open>The object \<^verbatim>\<open>serial.Serial\<close>, as far as \<^verbatim>\<open>run\<close> looks at it.\<close>

record Serial =
  is_open :: bool

record SerialMonitorThread =
  port :: string
  baudrate :: int
  timeout_seconds :: int
  serial_conn :: "Serial option"
  is_running :: bool
  last_received_time :: "timestamp option"

text \<open>
  The two places that emit \<^verbatim>\<open>error_occurred\<close> differ in the prefix of the message only:
  the handler inside the loop (line 47) and the handler around the whole of \<^verbatim>\<open>run\<close> (line 63).
\<close>

datatype error_prefix = ReadError | ConnectionError

text \<open>
  The three signals of the thread. \<^verbatim>\<open>timeout_occurred\<close> carries the value of
  \<^verbatim>\<open>last_received_time\<close> from before the reset (the source formats it to a string of
  seconds resolution).
\<close>

datatype signal =
    data_received py_str
  | timeout_occurred timestamp
  | error_occurred error_prefix string

text \<open>
  What the outside world answers during one pass through the loop body:
  whether \<^verbatim>\<open>stop()\<close> has run since the loop condition was last tested, the value of
  \<^verbatim>\<open>in_waiting\<close> (or the message of the exception it raises), the decoded result of
  \<^verbatim>\<open>readline()\<close> (or the message of its exception), and the clock at line 44 and at line 51.
\<close>

record tick_env =
  stop_called :: bool
  in_waiting :: "string + nat"
  readline :: "string + py_str"
  recv_now :: timestamp
  check_now :: timestamp

datatype open_result = OpenRaises string | Opened

text \<open>
  How a run of the loop over a finite script of ticks ends: the loop condition was false,
  an exception left the loop, or the script is used up and the loop is still going.
\<close>

datatype loop_exit = Stopped | Raised string | Pending

datatype run_status = Finished | Running

subsection \<open>Python's \<^verbatim>\<open>str.strip()\<close>\<close>

text \<open>The code points for which \<^verbatim>\<open>str.isspace()\<close> holds.\<close>

definition isspace :: "nat \<Rightarrow> bool" where
  "isspace c \<longleftrightarrow>
     (9 \<le> c \<and> c \<le> 13) \<or> (28 \<le> c \<and> c \<le> 32) \<or> c = 133 \<or> c = 160 \<or> c = 5760 \<or>
     (8192 \<le> c \<and> c \<le> 8202) \<or> c = 8232 \<or> c = 8233 \<or> c = 8239 \<or> c = 8287 \<or> c = 12288"

definition strip :: "py_str \<Rightarrow> py_str" where
  "strip s = rev (dropWhile isspace (rev (dropWhile isspace s)))"

subsection \<open>\<^verbatim>\<open>timedelta.total_seconds()\<close>\<close>

text \<open>
  \<^verbatim>\<open>total_seconds()\<close> divides the microseconds of the difference by \<open>10\<^sup>6\<close> with Python's
  true division of integers, whose result is the double nearest to the quotient, ties going
  to the even significand. The value of that double is a rational number.

  \<open>round_half_even a b\<close> is the integer nearest to \<open>a / b\<close> for positive \<open>b\<close>, ties
  going to the even one.
\<close>

definition round_half_even :: "int \<Rightarrow> int \<Rightarrow> int" where
  "round_half_even a b =
     (let q = a div b; r = a mod b in
      if 2 * r < b then q else if b < 2 * r then q + 1 else if even q then q else q + 1)"

text \<open>
  The significand of a double has 53 bits. For \<open>a\<close> microseconds, \<open>find_shift 72 a\<close> is the
  number \<open>s\<close> of binary places after the point that the double of \<open>a / 10\<^sup>6\<close> has: the
  least \<open>s\<close> for which \<open>a * 2 ^ s\<close> reaches \<open>2 ^ 52 * 10 ^ 6\<close>, which is 72 for one
  microsecond (and for none). It is found by counting down from 72.
\<close>

fun find_shift :: "nat \<Rightarrow> int \<Rightarrow> nat" where
  "find_shift 0 a = 0"
| "find_shift (Suc n) a =
     (if 2 ^ 52 * 1000000 \<le> a * 2 ^ n then find_shift n a else Suc n)"

text \<open>
  The double nearest to \<open>a / 10\<^sup>6\<close>, for \<open>a \<ge> 0\<close>: the quotient is rounded at \<open>s\<close> binary
  places. This is the correctly rounded double for every \<open>a\<close> below \<open>2 ^ 53\<close> seconds; a
  \<^verbatim>\<open>timedelta\<close> holds less than \<open>2 ^ 47\<close> seconds, and two \<^verbatim>\<open>datetime\<close>s differ by less than
  \<open>2 ^ 39\<close> seconds.
\<close>

definition true_divide :: "int \<Rightarrow> rat" where
  "true_divide a =
     (let s = find_shift 72 a in of_int (round_half_even (a * 2 ^ s) 1000000) / 2 ^ s)"

text \<open>Division of a negative integer rounds the magnitude and keeps the sign.\<close>

definition total_seconds :: "int \<Rightarrow> rat" where
  "total_seconds m = (if m < 0 then - true_divide (- m) else true_divide m)"

subsection \<open>\<^verbatim>\<open>SerialMonitorThread\<close>\<close>

text \<open>\<^verbatim>\<open>__init__\<close> (lines 19 to 26).\<close>

definition init :: "string \<Rightarrow> int \<Rightarrow> int \<Rightarrow> SerialMonitorThread" where
  "init p b t =
     \<lparr>port = p, baudrate = b, timeout_seconds = t, serial_conn = None,
      is_running = False, last_received_time = None\<rparr>"

text \<open>\<^verbatim>\<open>stop\<close> (line 70); the bounded wait of line 71 changes no field.\<close>

definition stop :: "SerialMonitorThread \<Rightarrow> SerialMonitorThread" where
  "stop th = th\<lparr>is_running := False\<rparr>"

text \<open>
  Lines 40 to 47. \<^verbatim>\<open>in_waiting\<close> is read outside the inner \<^verbatim>\<open>try\<close>: its exception leaves
  the loop (\<open>Inl\<close>). An exception of \<^verbatim>\<open>readline\<close> is caught by the inner handler, which
  emits \<^verbatim>\<open>error_occurred\<close> and changes no field.
\<close>

definition run_read ::
  "SerialMonitorThread \<Rightarrow> tick_env \<Rightarrow> string + (signal list \<times> SerialMonitorThread)" where
  "run_read th e =
     (case serial_conn th of
        None \<Rightarrow> Inr ([], th)
      | Some c \<Rightarrow>
          (case in_waiting e of
             Inl msg \<Rightarrow> Inl msg
           | Inr n \<Rightarrow>
               if n > 0 then
                 (case readline e of
                    Inl msg \<Rightarrow> Inr ([error_occurred ReadError msg], th)
                  | Inr data \<Rightarrow>
                      if strip data \<noteq> [] then
                        Inr ([data_received (strip data)],
                             th\<lparr>last_received_time := Some (recv_now e)\<rparr>)
                      else Inr ([], th))
               else Inr ([], th)))"

text \<open>
  Lines 50 to 57, with \<^verbatim>\<open>current_time\<close> the clock read at line 51. \<^verbatim>\<open>time_diff\<close> is the
  double that \<^verbatim>\<open>total_seconds()\<close> returns; Python compares it with the integer
  \<^verbatim>\<open>timeout_seconds\<close> exactly.
\<close>

definition run_check ::
  "SerialMonitorThread \<Rightarrow> timestamp \<Rightarrow> signal list \<times> SerialMonitorThread" where
  "run_check th current_time =
     (case last_received_time th of
        None \<Rightarrow> ([], th)
      | Some l \<Rightarrow>
          (let time_diff = total_seconds (current_time - l) in
           if time_diff > of_int (timeout_seconds th) then
             ([timeout_occurred l], th\<lparr>last_received_time := Some current_time\<rparr>)
           else ([], th)))"

text \<open>One pass through the loop body (lines 40 to 60).\<close>

definition run_tick ::
  "SerialMonitorThread \<Rightarrow> tick_env \<Rightarrow> string + (signal list \<times> SerialMonitorThread)" where
  "run_tick th e =
     (case run_read th e of
        Inl msg \<Rightarrow> Inl msg
      | Inr (evs1, th1) \<Rightarrow>
          (case run_check th1 (check_now e) of
             (evs2, th2) \<Rightarrow> Inr (evs1 @ evs2, th2)))"

text \<open>
  The loop of line 39 over a script of ticks. Before the condition is tested, \<^verbatim>\<open>stop()\<close>
  may have run in the other thread.
\<close>

fun run_loop ::
  "SerialMonitorThread \<Rightarrow> tick_env list \<Rightarrow> signal list \<times> SerialMonitorThread \<times> loop_exit" where
  "run_loop th [] = ([], th, Pending)"
| "run_loop th (e # es) =
     (let th0 = (if stop_called e then stop th else th) in
      if \<not> is_running th0 then ([], th0, Stopped)
      else
        (case run_tick th0 e of
           Inl msg \<Rightarrow> ([], th0, Raised msg)
         | Inr (evs, th1) \<Rightarrow>
             (case run_loop th1 es of
                (evs', th2, x) \<Rightarrow> (evs @ evs', th2, x))))"

text \<open>
  The \<^verbatim>\<open>finally\<close> clause (lines 64 to 66), and \<^verbatim>\<open>Serial.close\<close>, which marks the port closed.
\<close>

definition close :: "Serial \<Rightarrow> Serial" where
  "close c = c\<lparr>is_open := False\<rparr>"

definition run_finally :: "SerialMonitorThread \<Rightarrow> SerialMonitorThread" where
  "run_finally th =
     (case serial_conn th of
        None \<Rightarrow> th
      | Some c \<Rightarrow> if is_open c then th\<lparr>serial_conn := Some (close c)\<rparr> else th)"

text \<open>Lines 31 to 37: the port is opened, then the flag and the timestamp are set.\<close>

definition run_open ::
  "SerialMonitorThread \<Rightarrow> open_result \<Rightarrow> timestamp \<Rightarrow> string + SerialMonitorThread" where
  "run_open th r t0 =
     (case r of
        OpenRaises msg \<Rightarrow> Inl msg
      | Opened \<Rightarrow>
          Inr (th\<lparr>serial_conn := Some \<lparr>is_open = True\<rparr>, is_running := True,
                  last_received_time := Some t0\<rparr>))"

text \<open>
  \<^verbatim>\<open>run\<close> (lines 28 to 66). The status is \<open>Running\<close> when the script of ticks ends inside
  the loop: then neither the handler of line 62 nor the \<^verbatim>\<open>finally\<close> clause has run.
\<close>

definition run ::
  "SerialMonitorThread \<Rightarrow> open_result \<Rightarrow> timestamp \<Rightarrow> tick_env list \<Rightarrow>
     signal list \<times> SerialMonitorThread \<times> run_status" where
  "run th r t0 ticks =
     (case run_open th r t0 of
        Inl msg \<Rightarrow> ([error_occurred ConnectionError msg], run_finally th, Finished)
      | Inr th1 \<Rightarrow>
          (case run_loop th1 ticks of
             (evs, th2, Stopped) \<Rightarrow> (evs, run_finally th2, Finished)
           | (evs, th2, Raised msg) \<Rightarrow>
               (evs @ [error_occurred ConnectionError msg], run_finally th2, Finished)
           | (evs, th2, Pending) \<Rightarrow> (evs, th2, Running)))"

subsection \<open>\<^verbatim>\<open>SerialMonitorApp\<close>: creating and discarding the thread\<close>

text \<open>
  What \<^verbatim>\<open>start_monitoring\<close> reads from the widgets: the number of entries and the current
  text of the port box, and the two text fields as \<^verbatim>\<open>int(...)\<close> parses them (\<open>None\<close> when it
  raises \<^verbatim>\<open>ValueError\<close>).
\<close>

record form =
  port_count :: nat
  current_port :: string
  baud_edit :: "int option"
  timeout_edit :: "int option"

record SerialMonitorApp =
  monitor_thread :: "SerialMonitorThread option"

text \<open>
  \<^verbatim>\<open>start_monitoring\<close> (lines 186 to 211): each of the three early returns leaves the
  application as it was; otherwise a new thread object replaces whatever
  \<^verbatim>\<open>monitor_thread\<close> held.
\<close>

definition start_monitoring :: "form \<Rightarrow> SerialMonitorApp \<Rightarrow> SerialMonitorApp" where
  "start_monitoring f app =
     (if port_count f = 0 then app
      else
        (case baud_edit f of
           None \<Rightarrow> app
         | Some b \<Rightarrow>
             (case timeout_edit f of
                None \<Rightarrow> app
              | Some t \<Rightarrow> app\<lparr>monitor_thread := Some (init (current_port f) b t)\<rparr>)))"

text \<open>
  \<^verbatim>\<open>stop_monitoring\<close> (lines 219 to 223) calls \<^verbatim>\<open>stop()\<close> on the thread object and drops
  the reference; the first component is the thread object as \<^verbatim>\<open>stop()\<close> left it.
  \<^verbatim>\<open>on_error_occurred\<close> (lines 257 to 262) calls it after setting the status label.
\<close>

definition stop_monitoring ::
  "SerialMonitorApp \<Rightarrow> SerialMonitorThread option \<times> SerialMonitorApp" where
  "stop_monitoring app =
     (case monitor_thread app of
        None \<Rightarrow> (None, app\<lparr>monitor_thread := None\<rparr>)
      | Some th \<Rightarrow> (Some (stop th), app\<lparr>monitor_thread := None\<rparr>))"


subsection \<open>Observations on signals and scripts\<close>

text \<open>The payloads of the signals of each kind, in the order of emission.\<close>

fun timeouts :: "signal list \<Rightarrow> timestamp list" where
  "timeouts [] = []"
| "timeouts (timeout_occurred l # evs) = l # timeouts evs"
| "timeouts (_ # evs) = timeouts evs"

fun received :: "signal list \<Rightarrow> py_str list" where
  "received [] = []"
| "received (data_received s # evs) = s # received evs"
| "received (_ # evs) = received evs"

fun errors :: "signal list \<Rightarrow> (error_prefix \<times> string) list" where
  "errors [] = []"
| "errors (error_occurred p m # evs) = (p, m) # errors evs"
| "errors (_ # evs) = errors evs"

text \<open>
  By how many microseconds an elapsed time may exceed a timeout of \<open>t\<close> seconds before the
  double of its seconds is sure to compare above \<open>t\<close>: not at all when \<open>t\<close> is below
  \<open>2 ^ 33\<close> seconds in magnitude, where doubles are less than a microsecond apart, and by
  less than a second otherwise.
\<close>

definition check_slack :: "int \<Rightarrow> int" where
  "check_slack t = (if \<bar>t\<bar> < 2 ^ 33 then 0 else 999999)"

text \<open>The port is not held: there is no connection object, or it is closed.\<close>

definition released :: "SerialMonitorThread \<Rightarrow> bool" where
  "released th = (case serial_conn th of None \<Rightarrow> True | Some c \<Rightarrow> \<not> is_open c)"

text \<open>A tick in which nothing is waiting and \<^verbatim>\<open>stop()\<close> has not been called.\<close>

definition silent :: "tick_env \<Rightarrow> bool" where
  "silent e \<longleftrightarrow> \<not> stop_called e \<and> in_waiting e = Inr 0"




text \<open>Each time is no earlier than the one before it (starting from \<open>p\<close>) and at most \<open>d\<close> later.\<close>

fun steps_within :: "int \<Rightarrow> timestamp \<Rightarrow> timestamp list \<Rightarrow> bool" where
  "steps_within d p [] = True"
| "steps_within d p (c # cs) = (p \<le> c \<and> c - p \<le> d \<and> steps_within d c cs)"

text \<open>Every difference \<open>g\<close> of neighbours satisfies \<open>lo < g \<le> hi\<close>.\<close>

fun periods_within :: "int \<Rightarrow> int \<Rightarrow> timestamp list \<Rightarrow> bool" where
  "periods_within lo hi (x # y # zs) = (lo < y - x \<and> y - x \<le> hi \<and> periods_within lo hi (y # zs))"
| "periods_within lo hi _ = True"


subsection \<open>A sample session and sample ticks\<close>

text \<open>
  A thread as line 37 leaves it: port open, flag set, watching with a timeout of five
  seconds since time \<open>0\<close>.
\<close>

definition sample_thread :: SerialMonitorThread where
  "sample_thread =
     \<lparr>port = ''COM3'', baudrate = 9600, timeout_seconds = 5,
      serial_conn = Some \<lparr>is_open = True\<rparr>, is_running = True, last_received_time = Some 0\<rparr>"

text \<open>Nothing waiting; the clock reads \<open>c\<close>.\<close>

definition quiet_tick :: "timestamp \<Rightarrow> tick_env" where
  "quiet_tick c =
     \<lparr>stop_called = False, in_waiting = Inr 0, readline = Inr [], recv_now = c, check_now = c\<rparr>"

text \<open>The text \<open>s\<close> is waiting; the clock reads \<open>r\<close> at the receipt and \<open>c\<close> at the check.\<close>

definition line_tick :: "py_str \<Rightarrow> timestamp \<Rightarrow> timestamp \<Rightarrow> tick_env" where
  "line_tick s r c =
     \<lparr>stop_called = False, in_waiting = Inr (length s), readline = Inr s,
      recv_now = r, check_now = c\<rparr>"



text \<open>\<^verbatim>\<open>stop()\<close> has been called before the loop condition is tested.\<close>

definition stop_tick :: "timestamp \<Rightarrow> tick_env" where
  "stop_tick c =
     \<lparr>stop_called = True, in_waiting = Inr 0, readline = Inr [], recv_now = c, check_now = c\<rparr>"

text \<open>The code points of \<^verbatim>\<open>"ping\n"\<close>.\<close>

definition ping :: py_str where
  "ping = [112, 105, 110, 103, 10]"

section \<open>Properties\<close>

subsection \<open>The double of a number of microseconds against an integer\<close>

lemma round_half_even_le: "0 < b \<Longrightarrow> a \<le> N * b \<Longrightarrow> round_half_even a b \<le> N"
proof -
  assume b: "0 < b" and le: "a \<le> N * b"
  have "a div b \<le> (N * b) div b" by (rule zdiv_mono1[OF le b])
  then have q: "a div b \<le> N" using b by simp
  show ?thesis
  proof (cases "a div b = N")
    case True
    have "a = b * (a div b) + a mod b" by simp
    then have "a = N * b + a mod b" using True by (simp add: mult.commute)
    moreover have "0 \<le> a mod b" using b by simp
    ultimately have "a mod b = 0" using le by linarith
    then show ?thesis using True b by (simp add: round_half_even_def Let_def)
  next
    case False
    then have "a div b + 1 \<le> N" using q by linarith
    then show ?thesis by (simp add: round_half_even_def Let_def)
  qed
qed

lemma round_half_even_ge: "0 < b \<Longrightarrow> N * b \<le> a \<Longrightarrow> N \<le> round_half_even a b"
proof -
  assume b: "0 < b" and le: "N * b \<le> a"
  have "(N * b) div b \<le> a div b" by (rule zdiv_mono1[OF le b])
  then have q: "N \<le> a div b" using b by simp
  then show ?thesis by (simp add: round_half_even_def Let_def)
qed


lemma find_shift_low:
  "find_shift n a \<noteq> 0 \<Longrightarrow> a * 2 ^ (find_shift n a - 1) < 2 ^ 52 * 1000000"
proof (induction n)
  case 0
  then show ?case by simp
next
  case (Suc n)
  show ?case
  proof (cases "2 ^ 52 * 1000000 \<le> a * 2 ^ n")
    case True
    then have eq: "find_shift (Suc n) a = find_shift n a" by (simp only: find_shift.simps if_True)
    show ?thesis using Suc unfolding eq by blast
  next
    case False
    then have eq: "find_shift (Suc n) a = Suc n" by (simp only: find_shift.simps if_False)
    show ?thesis using False unfolding eq by (simp only: diff_Suc_1 not_le)
  qed
qed

lemma find_shift_high:
  "2 ^ 52 * 1000000 \<le> a * 2 ^ n \<Longrightarrow> 2 ^ 52 * 1000000 \<le> a * 2 ^ find_shift n a"
proof (induction n)
  case 0
  then show ?case by (simp only: find_shift.simps)
next
  case (Suc n)
  show ?case
  proof (cases "2 ^ 52 * 1000000 \<le> a * 2 ^ n")
    case True
    then have eq: "find_shift (Suc n) a = find_shift n a" by (simp only: find_shift.simps if_True)
    show ?thesis using Suc.IH[OF True] unfolding eq .
  next
    case False
    then have eq: "find_shift (Suc n) a = Suc n" by (simp only: find_shift.simps if_False)
    show ?thesis using Suc.prems unfolding eq .
  qed
qed


lemma true_divide_le: "a \<le> N * 1000000 \<Longrightarrow> true_divide a \<le> of_int N"
proof -
  assume le: "a \<le> N * 1000000"
  define s where "s = find_shift 72 a"
  have "a * 2 ^ s \<le> (N * 1000000) * 2 ^ s" using le by (simp add: mult_right_mono)
  then have "a * 2 ^ s \<le> (N * 2 ^ s) * 1000000" by (simp add: mult_ac)
  then have "round_half_even (a * 2 ^ s) 1000000 \<le> N * 2 ^ s"
    by (rule round_half_even_le[rotated]) simp
  then have "(of_int (round_half_even (a * 2 ^ s) 1000000) :: rat) \<le> of_int (N * 2 ^ s)"
    by (simp only: of_int_le_iff)
  then have "(of_int (round_half_even (a * 2 ^ s) 1000000) :: rat) / 2 ^ s \<le> of_int N"
    by (simp add: pos_divide_le_eq)
  then show ?thesis by (simp add: true_divide_def s_def[symmetric])
qed

lemma true_divide_ge: "N * 1000000 \<le> a \<Longrightarrow> of_int N \<le> true_divide a"
proof -
  assume le: "N * 1000000 \<le> a"
  define s where "s = find_shift 72 a"
  have "(N * 1000000) * 2 ^ s \<le> a * 2 ^ s" using le by (simp add: mult_right_mono)
  then have "(N * 2 ^ s) * 1000000 \<le> a * 2 ^ s" by (simp add: mult_ac)
  then have "N * 2 ^ s \<le> round_half_even (a * 2 ^ s) 1000000"
    by (rule round_half_even_ge[rotated]) simp
  then have "(of_int (N * 2 ^ s) :: rat) \<le> of_int (round_half_even (a * 2 ^ s) 1000000)"
    by (simp only: of_int_le_iff)
  then have "of_int N \<le> (of_int (round_half_even (a * 2 ^ s) 1000000) :: rat) / 2 ^ s"
    by (simp add: pos_le_divide_eq)
  then show ?thesis by (simp add: true_divide_def s_def[symmetric])
qed

lemma find_shift_72: "1 \<le> a \<Longrightarrow> 2 ^ 52 * 1000000 \<le> a * 2 ^ find_shift 72 a"
proof -
  assume a: "1 \<le> a"
  have "(2::int) ^ 52 * 1000000 \<le> 1 * 2 ^ 72" by simp
  also have "\<dots> \<le> a * 2 ^ 72" using a by (intro mult_right_mono) simp_all
  finally show ?thesis by (rule find_shift_high)
qed

lemma find_shift_nonpos: "a \<le> 0 \<Longrightarrow> find_shift (Suc n) a = Suc n"
proof -
  assume "a \<le> 0"
  then have "a * 2 ^ n \<le> 0" by (simp add: mult_le_0_iff)
  then have "\<not> 2 ^ 52 * 1000000 \<le> a * 2 ^ n" by simp
  then show ?thesis by (simp only: find_shift.simps if_False)
qed

lemma true_divide_gt:
  assumes "0 \<le> N" and "N < 2 ^ 33" and "N * 1000000 < a"
  shows "of_int N < true_divide a"
proof -
  define s where "s = find_shift 72 a"
  define r where "r = round_half_even (a * 2 ^ s) 1000000"
  have td: "true_divide a = of_int r / 2 ^ s"
    by (simp add: true_divide_def s_def[symmetric] r_def)
  have "0 \<le> N * 1000000" using assms(1) by simp
  then have a1: "1 \<le> a" using assms(3) by linarith
  show ?thesis
  proof (cases "20 \<le> s")
    case True
    have p: "(2::int) ^ 20 \<le> 2 ^ s" using True by (intro power_increasing) simp_all
    have "N * 1000000 + 1 \<le> a" using assms(3) by simp
    then have "(N * 1000000 + 1) * 2 ^ s \<le> a * 2 ^ s" by (simp add: mult_right_mono)
    moreover have "(N * 2 ^ s + 1) * 1000000 \<le> (N * 1000000 + 1) * 2 ^ s"
      using p by (simp add: algebra_simps)
    ultimately have "(N * 2 ^ s + 1) * 1000000 \<le> a * 2 ^ s" by linarith
    then have "N * 2 ^ s + 1 \<le> r" unfolding r_def
      by (rule round_half_even_ge[rotated]) simp
    then have "N * 2 ^ s < r" by simp
    then have "(of_int (N * 2 ^ s) :: rat) < of_int r" by (simp only: of_int_less_iff)
    then have "(of_int N :: rat) < of_int r / 2 ^ s" by (simp add: pos_less_divide_eq)
    then show ?thesis by (simp only: td)
  next
    case False
    then have "s \<le> 19" by simp
    then have p: "(2::int) ^ s \<le> 2 ^ 19" by (intro power_increasing) simp_all
    have "2 ^ 52 * 1000000 \<le> a * 2 ^ s" unfolding s_def using a1 by (rule find_shift_72)
    then have "2 ^ 52 \<le> r" unfolding r_def
      by (rule round_half_even_ge[rotated]) simp
    moreover have "N * 2 ^ s < 2 ^ 33 * 2 ^ 19"
    proof -
      have "N * 2 ^ s \<le> N * 2 ^ 19" using p assms(1) by (rule mult_left_mono)
      also have "\<dots> < 2 ^ 33 * 2 ^ 19" using assms(2) by simp
      finally show ?thesis .
    qed
    ultimately have "N * 2 ^ s < r" by simp
    then have "(of_int (N * 2 ^ s) :: rat) < of_int r" by (simp only: of_int_less_iff)
    then have "(of_int N :: rat) < of_int r / 2 ^ s" by (simp add: pos_less_divide_eq)
    then show ?thesis by (simp only: td)
  qed
qed

lemma true_divide_lt:
  assumes "N \<le> 2 ^ 33" and "a < N * 1000000"
  shows "true_divide a < of_int N"
proof -
  define s where "s = find_shift 72 a"
  define r where "r = round_half_even (a * 2 ^ s) 1000000"
  have td: "true_divide a = of_int r / 2 ^ s"
    by (simp add: true_divide_def s_def[symmetric] r_def)
  have big: "20 \<le> s"
  proof (cases "1 \<le> a")
    case True
    show ?thesis
    proof (rule ccontr)
      assume "\<not> 20 \<le> s"
      then have "s \<le> 19" by simp
      then have p: "(2::int) ^ s \<le> 2 ^ 19" by (intro power_increasing) simp_all
      have lo: "2 ^ 52 * 1000000 \<le> a * 2 ^ s" unfolding s_def using True by (rule find_shift_72)
      have "a * 2 ^ s \<le> a * 2 ^ 19" using p True by (intro mult_left_mono) simp_all
      moreover have "N * 1000000 \<le> 2 ^ 33 * 1000000" using assms(1) by simp
      then have "a < 2 ^ 33 * 1000000" using assms(2) by linarith
      ultimately have "a * 2 ^ s < 2 ^ 33 * 1000000 * 2 ^ 19" by simp
      then show False using lo by simp
    qed
  next
    case False
    then have "a \<le> 0" by simp
    then have "find_shift (Suc 71) a = Suc 71" by (rule find_shift_nonpos)
    then show ?thesis by (simp add: s_def)
  qed
  have p: "(2::int) ^ 20 \<le> 2 ^ s" using big by (intro power_increasing) simp_all
  have "a \<le> N * 1000000 - 1" using assms(2) by simp
  then have "a * 2 ^ s \<le> (N * 1000000 - 1) * 2 ^ s" by (simp add: mult_right_mono)
  moreover have "(N * 1000000 - 1) * 2 ^ s \<le> (N * 2 ^ s - 1) * 1000000"
    using p by (simp add: algebra_simps)
  ultimately have "a * 2 ^ s \<le> (N * 2 ^ s - 1) * 1000000" by linarith
  then have "r \<le> N * 2 ^ s - 1" unfolding r_def
    by (rule round_half_even_le[rotated]) simp
  then have "r < N * 2 ^ s" by simp
  then have "(of_int r :: rat) < of_int (N * 2 ^ s)" by (simp only: of_int_less_iff)
  then have "(of_int r :: rat) / 2 ^ s < of_int N" by (simp add: pos_divide_less_eq)
  then show ?thesis by (simp only: td)
qed

lemma total_seconds_le: "m \<le> T * 1000000 \<Longrightarrow> total_seconds m \<le> of_int T"
proof (cases "m < 0")
  case True
  assume "m \<le> T * 1000000"
  then have "(- T) * 1000000 \<le> - m" by simp
  then have "of_int (- T) \<le> true_divide (- m)" by (rule true_divide_ge)
  then show ?thesis using True by (simp add: total_seconds_def)
next
  case False
  assume "m \<le> T * 1000000"
  then have "true_divide m \<le> of_int T" by (rule true_divide_le)
  then show ?thesis using False by (simp add: total_seconds_def)
qed

lemma total_seconds_gt:
  assumes "\<bar>T\<bar> < 2 ^ 33" and "T * 1000000 < m"
  shows "of_int T < total_seconds m"
proof (cases "m < 0")
  case True
  have "- m < (- T) * 1000000" using assms(2) by simp
  moreover have "- T \<le> 2 ^ 33" using assms(1) by simp
  ultimately have "true_divide (- m) < of_int (- T)" by (intro true_divide_lt)
  then show ?thesis using True by (simp add: total_seconds_def)
next
  case False
  show ?thesis
  proof (cases "0 \<le> T")
    case True
    have "T < 2 ^ 33" using assms(1) by simp
    from true_divide_gt[OF True this assms(2)] show ?thesis
      using False by (simp add: total_seconds_def)
  next
    case neg: False
    have "0 * 1000000 \<le> m" using False by simp
    then have "of_int 0 \<le> true_divide m" by (rule true_divide_ge)
    then show ?thesis using False neg by (simp add: total_seconds_def)
  qed
qed

lemma total_seconds_ge: "T * 1000000 \<le> m \<Longrightarrow> of_int T \<le> total_seconds m"
proof (cases "m < 0")
  case True
  assume "T * 1000000 \<le> m"
  then have "- m \<le> (- T) * 1000000" by simp
  then have "true_divide (- m) \<le> of_int (- T)" by (rule true_divide_le)
  then show ?thesis using True by (simp add: total_seconds_def)
next
  case False
  assume "T * 1000000 \<le> m"
  then have "of_int T \<le> true_divide m" by (rule true_divide_ge)
  then show ?thesis using False by (simp add: total_seconds_def)
qed

lemma total_seconds_gt_slack:
  assumes "T * 1000000 + check_slack T < m"
  shows "of_int T < total_seconds m"
proof (cases "\<bar>T\<bar> < 2 ^ 33")
  case True
  then show ?thesis using assms by (intro total_seconds_gt) (simp_all add: check_slack_def)
next
  case False
  then have "(T + 1) * 1000000 \<le> m" using assms by (simp add: check_slack_def algebra_simps)
  then have "of_int (T + 1) \<le> total_seconds m" by (rule total_seconds_ge)
  then show ?thesis by simp
qed

lemma total_seconds_gt_iff:
  "\<bar>T\<bar> < 2 ^ 33 \<Longrightarrow> of_int T < total_seconds m \<longleftrightarrow> T * 1000000 < m"
  using total_seconds_gt[of T m] total_seconds_le[of m T] by fastforce

subsection \<open>Auxiliary facts\<close>

lemma timeouts_append: "timeouts (xs @ ys) = timeouts xs @ timeouts ys"
  by (induction xs rule: timeouts.induct) simp_all

lemma received_append: "received (xs @ ys) = received xs @ received ys"
  by (induction xs rule: received.induct) simp_all

lemma errors_append: "errors (xs @ ys) = errors xs @ errors ys"
  by (induction xs rule: errors.induct) simp_all

lemma strip_Nil_iff: "strip s = [] \<longleftrightarrow> (\<forall>c\<in>set s. isspace c)"
proof
  assume "strip s = []"
  then have all: "\<forall>c\<in>set (dropWhile isspace s). isspace c"
    by (simp add: strip_def)
  have "dropWhile isspace s = []"
  proof (rule ccontr)
    assume ne: "dropWhile isspace s \<noteq> []"
    then have "\<not> isspace (hd (dropWhile isspace s))" by (rule hd_dropWhile)
    moreover have "hd (dropWhile isspace s) \<in> set (dropWhile isspace s)" using ne by simp
    ultimately show False using all by blast
  qed
  then show "\<forall>c\<in>set s. isspace c" by simp
next
  assume "\<forall>c\<in>set s. isspace c"
  then show "strip s = []" by (auto simp: strip_def dest: set_dropWhileD)
qed

lemma run_read_fields:
  assumes "run_read th e = Inr (evs, th')"
  shows "timeout_seconds th' = timeout_seconds th" and "is_running th' = is_running th"
    and "serial_conn th' = serial_conn th" and "timeouts evs = []"
  using assms by (auto simp: run_read_def split: option.splits sum.splits if_splits)


text \<open>The check does not fire unless more than the timeout has elapsed.\<close>

lemma run_check_quiet:
  "last_received_time th = Some l \<Longrightarrow> c - l \<le> timeout_seconds th * 1000000 \<Longrightarrow>
   run_check th c = ([], th)"
  using total_seconds_le[of "c - l" "timeout_seconds th"]
  by (simp add: run_check_def Let_def)

lemma run_check_None: "last_received_time th = None \<Longrightarrow> run_check th c = ([], th)"
  by (simp add: run_check_def)

lemma run_check_cases:
  "run_check th c = ([], th) \<or>
   (\<exists>l. last_received_time th = Some l \<and> timeout_seconds th * 1000000 < c - l \<and>
      run_check th c = ([timeout_occurred l], th\<lparr>last_received_time := Some c\<rparr>))"
proof (cases "last_received_time th")
  case None
  then show ?thesis by (simp add: run_check_None)
next
  case (Some l)
  show ?thesis
  proof (cases "c - l \<le> timeout_seconds th * 1000000")
    case True
    then show ?thesis using Some by (simp add: run_check_quiet)
  next
    case False
    then show ?thesis using Some by (simp add: run_check_def Let_def)
  qed
qed

text \<open>
  For a timeout below \<open>2 ^ 33\<close> seconds in magnitude, the check fires exactly when more
  microseconds have elapsed than the timeout has.
\<close>

lemma run_check_bounded:
  "\<bar>timeout_seconds th\<bar> < 2 ^ 33 \<Longrightarrow>
   run_check th c =
     (case last_received_time th of
        None \<Rightarrow> ([], th)
      | Some l \<Rightarrow>
          if timeout_seconds th * 1000000 < c - l
          then ([timeout_occurred l], th\<lparr>last_received_time := Some c\<rparr>) else ([], th))"
  by (simp add: run_check_def Let_def total_seconds_gt_iff split: option.splits)

text \<open>For every timeout, the check fires once the elapsed time exceeds it by the slack.\<close>

lemma run_check_fires:
  "last_received_time th = Some l \<Longrightarrow>
   timeout_seconds th * 1000000 + check_slack (timeout_seconds th) < c - l \<Longrightarrow>
   run_check th c = ([timeout_occurred l], th\<lparr>last_received_time := Some c\<rparr>)"
  using total_seconds_gt_slack[of "timeout_seconds th" "c - l"]
  by (simp add: run_check_def Let_def)

lemma run_check_fields:
  assumes "run_check th c = (evs, th')"
  shows "timeout_seconds th' = timeout_seconds th" and "is_running th' = is_running th"
    and "serial_conn th' = serial_conn th" and "errors evs = []" and "received evs = []"
  using assms run_check_cases[of th c] by auto


lemma run_loop_Cons:
  "run_loop th (e # es) =
     (let th0 = (if stop_called e then stop th else th) in
      if \<not> is_running th0 then ([], th0, Stopped)
      else
        (case run_tick th0 e of
           Inl msg \<Rightarrow> ([], th0, Raised msg)
         | Inr (evs, th1) \<Rightarrow>
             (evs @ fst (run_loop th1 es), fst (snd (run_loop th1 es)),
              snd (snd (run_loop th1 es)))))"
  by (simp add: Let_def split: sum.splits prod.splits)

lemma run_Opened:
  "run th Opened t0 es =
     (case run_loop (th\<lparr>serial_conn := Some \<lparr>is_open = True\<rparr>, is_running := True,
                         last_received_time := Some t0\<rparr>) es of
        (evs, th2, Stopped) \<Rightarrow> (evs, run_finally th2, Finished)
      | (evs, th2, Raised msg) \<Rightarrow>
          (evs @ [error_occurred ConnectionError msg], run_finally th2, Finished)
      | (evs, th2, Pending) \<Rightarrow> (evs, th2, Running))"
  by (simp add: run_def run_open_def)

lemma released_run_finally: "released (run_finally th)"
  by (simp add: released_def run_finally_def close_def split: option.splits)

lemma run_finally_released: "released th \<Longrightarrow> run_finally th = th"
  by (simp add: released_def run_finally_def split: option.splits)

subsection \<open>The timeout check\<close>







text \<open>
  Claim C2. The comparison is strict. In a tick that reaches the check, with \<open>l\<close> the
  value of \<^verbatim>\<open>last_received_time\<close> after the read step: when the elapsed time equals
  \<^verbatim>\<open>timeout_seconds\<close> exactly, the tick emits no \<^verbatim>\<open>timeout_occurred\<close> and leaves the
  timestamp alone; and a \<^verbatim>\<open>timeout_occurred\<close> is emitted only when the elapsed time is
  strictly greater than \<^verbatim>\<open>timeout_seconds\<close>. Both hold for every value of
  \<^verbatim>\<open>timeout_seconds\<close>. For a timeout below \<open>2 ^ 33\<close> seconds in magnitude, every elapsed
  time that is strictly greater does fire (beyond, every one that is greater by a full
  second).
\<close>

theorem timeout_comparison_strict:
  assumes "run_read th e = Inr (evs1, th1)" and "last_received_time th1 = Some l"
  shows "\<exists>evs th'. run_tick th e = Inr (evs, th') \<and>
           (check_now e - l = timeout_seconds th * 1000000 \<longrightarrow> timeouts evs = [] \<and> th' = th1) \<and>
           (timeouts evs \<noteq> [] \<longrightarrow> check_now e - l > timeout_seconds th * 1000000) \<and>
           (check_now e - l > timeout_seconds th * 1000000 + check_slack (timeout_seconds th) \<longrightarrow>
              timeouts evs = [l])"
proof -
  have ts: "timeout_seconds th1 = timeout_seconds th" using run_read_fields(1)[OF assms(1)] .
  obtain evs2 th' where ck: "run_check th1 (check_now e) = (evs2, th')"
    by (cases "run_check th1 (check_now e)")
  have tk: "run_tick th e = Inr (evs1 @ evs2, th')"
    using assms(1) ck by (simp add: run_tick_def)
  have tm: "timeouts (evs1 @ evs2) = timeouts evs2"
    using run_read_fields(4)[OF assms(1)] by (simp add: timeouts_append)
  have eq: "timeouts evs2 = [] \<and> th' = th1"
    if "check_now e - l = timeout_seconds th * 1000000"
    using run_check_quiet[OF assms(2), of "check_now e"] that ts ck by simp
  have only: "check_now e - l > timeout_seconds th * 1000000" if "timeouts evs2 \<noteq> []"
    using run_check_cases[of th1 "check_now e"] that ck assms(2) ts by auto
  have fires: "timeouts evs2 = [l]"
    if "check_now e - l > timeout_seconds th * 1000000 + check_slack (timeout_seconds th)"
    using run_check_fires[OF assms(2), of "check_now e"] that ck ts by auto
  show ?thesis
    using tk tm eq only fires by (intro exI[of _ "evs1 @ evs2"] exI[of _ th']) simp
qed

text \<open>The sample session checked at exactly 5 seconds of silence: nothing is emitted.\<close>

theorem timeout_comparison_strict_witness:
  "run_read sample_thread (quiet_tick 5000000) = Inr ([], sample_thread) \<and>
   last_received_time sample_thread = Some 0 \<and>
   check_now (quiet_tick 5000000) - 0 = timeout_seconds sample_thread * 1000000 \<and>
   (\<exists>evs. run_tick sample_thread (quiet_tick 5000000) = Inr (evs, sample_thread) \<and>
      timeouts evs = [])"
proof -
  have h1: "run_read sample_thread (quiet_tick 5000000) = Inr ([], sample_thread)"
    by (simp add: run_read_def sample_thread_def quiet_tick_def)
  have h2: "last_received_time sample_thread = Some 0"
    by (simp add: sample_thread_def)
  have h3: "check_now (quiet_tick 5000000) - 0 = timeout_seconds sample_thread * 1000000"
    by (simp add: sample_thread_def quiet_tick_def)
  show ?thesis
    using timeout_comparison_strict[OF h1 h2] h1 h2 h3 by auto
qed

subsection \<open>Receiving a line\<close>

text \<open>
  Claim C3. When something is waiting and \<^verbatim>\<open>readline\<close> returns the text \<open>data\<close>: if
  \<open>data\<close> is empty or consists of whitespace only, the read step emits nothing and changes
  nothing; otherwise it emits exactly one \<^verbatim>\<open>data_received\<close>, carrying the stripped text,
  and sets \<^verbatim>\<open>last_received_time\<close> to the clock reading of the receipt. The whole tick
  emits the same \<^verbatim>\<open>data_received\<close> signals as its read step.
\<close>

theorem line_updates_timestamp_and_emits_once:
  assumes "serial_conn th = Some sc" and "in_waiting e = Inr n" and "0 < n"
    and "readline e = Inr data"
  shows "run_read th e =
           (if \<forall>c\<in>set data. isspace c then Inr ([], th)
            else Inr ([data_received (strip data)],
                      th\<lparr>last_received_time := Some (recv_now e)\<rparr>)) \<and>
         (\<exists>evs th'. run_tick th e = Inr (evs, th') \<and>
            received evs = (if \<forall>c\<in>set data. isspace c then [] else [strip data]))"
proof -
  have rd: "run_read th e =
           (if \<forall>c\<in>set data. isspace c then Inr ([], th)
            else Inr ([data_received (strip data)],
                      th\<lparr>last_received_time := Some (recv_now e)\<rparr>))"
    using assms by (simp add: run_read_def strip_Nil_iff)
  obtain evs1 th1 where r1: "run_read th e = Inr (evs1, th1)"
    and e1: "received evs1 = (if \<forall>c\<in>set data. isspace c then [] else [strip data])"
    using rd by (cases "\<forall>c\<in>set data. isspace c") simp_all
  obtain evs2 th' where ck: "run_check th1 (check_now e) = (evs2, th')"
    by (cases "run_check th1 (check_now e)")
  have "run_tick th e = Inr (evs1 @ evs2, th')"
    using r1 ck by (simp add: run_tick_def)
  moreover have "received (evs1 @ evs2) =
      (if \<forall>c\<in>set data. isspace c then [] else [strip data])"
    using e1 run_check_fields(5)[OF ck] by (simp add: received_append)
  ultimately show ?thesis using rd by blast
qed

text \<open>
  The sample session receives \<^verbatim>\<open>"ping\n"\<close> at 2 seconds: one \<^verbatim>\<open>data_received\<close> with the
  text \<^verbatim>\<open>"ping"\<close>, and the timestamp moves to 2 seconds.
\<close>

theorem line_updates_timestamp_and_emits_once_witness:
  "serial_conn sample_thread = Some \<lparr>is_open = True\<rparr> \<and>
   in_waiting (line_tick ping 2000000 2000010) = Inr 5 \<and> (0::nat) < 5 \<and>
   readline (line_tick ping 2000000 2000010) = Inr ping \<and>
   run_read sample_thread (line_tick ping 2000000 2000010) =
     Inr ([data_received [112, 105, 110, 103]],
          sample_thread\<lparr>last_received_time := Some 2000000\<rparr>)"
proof -
  have h1: "serial_conn sample_thread = Some \<lparr>is_open = True\<rparr>"
    by (simp add: sample_thread_def)
  have h2: "in_waiting (line_tick ping 2000000 2000010) = Inr 5"
    by (simp add: line_tick_def ping_def)
  have h3: "(0::nat) < 5" by simp
  have h4: "readline (line_tick ping 2000000 2000010) = Inr ping"
    by (simp add: line_tick_def)
  have s: "strip ping = [112, 105, 110, 103]"
    by (simp add: strip_def ping_def isspace_def)
  have ns: "\<not> (\<forall>c\<in>set ping. isspace c)"
    by (simp add: ping_def isspace_def)
  have r: "recv_now (line_tick ping 2000000 2000010) = 2000000"
    by (simp add: line_tick_def)
  show ?thesis
    using line_updates_timestamp_and_emits_once[OF h1 h2 h3 h4] h1 h2 h4 ns s r by simp
qed

text \<open>
  Claim C10, as stated, fails on the code: the receipt (line 44) and the check (line 51)
  read the clock separately, and nothing bounds the time between the two readings. With a
  timeout of 5 seconds, a tick that receives \<^verbatim>\<open>"ping\n"\<close> at 5.9 seconds and reaches its
  check at 10.900001 seconds emits both signals.
\<close>

theorem data_tick_emits_no_timeout_counterexample:
  "run_tick sample_thread (line_tick ping 5900000 10900001) =
     Inr ([data_received [112, 105, 110, 103], timeout_occurred 5900000],
          sample_thread\<lparr>last_received_time := Some 10900001\<rparr>)"
proof -
  have s: "strip ping = [112, 105, 110, 103]"
    by (simp add: strip_def ping_def isspace_def)
  have n: "length ping = 5" by (simp add: ping_def)
  show ?thesis
    by (simp add: run_tick_def run_read_def run_check_bounded s n sample_thread_def
        line_tick_def)
qed

text \<open>
  Claim C10, amended. In a tick that emits a \<^verbatim>\<open>data_received\<close>, no \<^verbatim>\<open>timeout_occurred\<close>
  is emitted if the time that passes inside the tick between the clock reading of the
  receipt and that of the check does not exceed \<^verbatim>\<open>timeout_seconds\<close>: the check compares
  with the timestamp the receipt has just set, whatever the silence before the tick was.
\<close>

theorem data_tick_emits_no_timeout:
  assumes "run_tick th e = Inr (evs, th')" and "received evs \<noteq> []"
    and "check_now e - recv_now e \<le> timeout_seconds th * 1000000"
  shows "timeouts evs = []"
proof -
  obtain evs1 th1 where rd: "run_read th e = Inr (evs1, th1)"
    using assms(1) by (auto simp: run_tick_def split: sum.splits)
  obtain evs2 where ck: "run_check th1 (check_now e) = (evs2, th')" and ev: "evs = evs1 @ evs2"
    using assms(1) rd by (auto simp: run_tick_def split: prod.splits)
  have "received evs1 \<noteq> []"
    using assms(2) ev run_check_fields(5)[OF ck] by (simp add: received_append)
  then have l1: "last_received_time th1 = Some (recv_now e)"
    using rd by (auto simp: run_read_def split: option.splits sum.splits if_splits)
  have "check_now e - recv_now e \<le> timeout_seconds th1 * 1000000"
    using assms(3) run_read_fields(1)[OF rd] by simp
  then have "run_check th1 (check_now e) = ([], th1)"
    using l1 by (rule run_check_quiet[rotated])
  then have "evs = evs1" using ck ev by simp
  then show ?thesis using run_read_fields(4)[OF rd] by simp
qed

text \<open>
  A session that has been silent for 5.9 seconds, so that a timeout is due, receives
  \<^verbatim>\<open>"ping\n"\<close>, and the check follows 10 microseconds later: the tick emits the data and
  no timeout.
\<close>

theorem data_tick_emits_no_timeout_witness:
  "run_tick sample_thread (line_tick ping 5900000 5900010) =
     Inr ([data_received [112, 105, 110, 103]],
          sample_thread\<lparr>last_received_time := Some 5900000\<rparr>) \<and>
   received [data_received [112, 105, 110, 103]] \<noteq> [] \<and>
   check_now (line_tick ping 5900000 5900010) - recv_now (line_tick ping 5900000 5900010)
     \<le> timeout_seconds sample_thread * 1000000 \<and>
   timeouts [data_received [112, 105, 110, 103]] = []"
proof -
  have s: "strip ping = [112, 105, 110, 103]"
    by (simp add: strip_def ping_def isspace_def)
  have n: "length ping = 5" by (simp add: ping_def)
  have h1: "run_tick sample_thread (line_tick ping 5900000 5900010) =
     Inr ([data_received [112, 105, 110, 103]],
          sample_thread\<lparr>last_received_time := Some 5900000\<rparr>)"
    by (simp add: run_tick_def run_read_def run_check_bounded s n sample_thread_def
        line_tick_def)
  have h2: "received [data_received [112, 105, 110, 103]] \<noteq> []" by simp
  have h4: "check_now (line_tick ping 5900000 5900010) - recv_now (line_tick ping 5900000 5900010)
     \<le> timeout_seconds sample_thread * 1000000"
    by (simp add: sample_thread_def line_tick_def)
  show ?thesis
    using data_tick_emits_no_timeout[OF h1 h2 h4] h1 h2 h4 by blast
qed

subsection \<open>Failures\<close>




text \<open>
  An exception of \<^verbatim>\<open>in_waiting\<close>, by contrast, is caught by the handler of line 62 only:
  it ends the loop, one \<^verbatim>\<open>error_occurred\<close> is emitted, and the port is closed.
\<close>

lemma poll_error_ends_run:
  assumes "in_waiting e = Inl msg" and "\<not> stop_called e"
  shows "\<exists>th'. run th Opened t0 (e # es) =
           ([error_occurred ConnectionError msg], th', Finished) \<and>
         released th' \<and> is_running th'"
  using assms
  by (simp add: run_Opened run_loop_Cons run_tick_def run_read_def run_finally_def
      released_def close_def del: run_loop.simps)

text \<open>
  Claim C5. When opening the port fails, a freshly constructed thread emits exactly one
  \<^verbatim>\<open>error_occurred\<close> and \<^verbatim>\<open>run\<close> is over, whatever the device would have sent: the loop is
  never entered, \<^verbatim>\<open>is_running\<close> is still false, and there is no connection object, so no
  port is held.
\<close>

theorem open_failure_reports_once_and_never_runs:
  "run (init p b t) (OpenRaises msg) t0 ticks =
     ([error_occurred ConnectionError msg], init p b t, Finished) \<and>
   \<not> is_running (init p b t) \<and> serial_conn (init p b t) = None \<and> released (init p b t)"
  by (simp add: run_def run_open_def run_finally_def init_def released_def)

theorem open_failure_reports_once_and_never_runs_witness:
  "run (init ''COM9'' 9600 600) (OpenRaises ''could not open port'') 0 [quiet_tick 100000] =
     ([error_occurred ConnectionError ''could not open port''], init ''COM9'' 9600 600, Finished) \<and>
   \<not> is_running (init ''COM9'' 9600 600)"
  using open_failure_reports_once_and_never_runs
    [of "''COM9''" 9600 600 "''could not open port''" 0 "[quiet_tick 100000]"]
  by simp

text \<open>
  Claim C6. Whenever \<^verbatim>\<open>run\<close> has ended (after a stop, a failure to open, or an exception
  that left the loop) the port is not held. The \<^verbatim>\<open>finally\<close> clause is idempotent, and on a
  thread whose port was never opened or is closed already it does nothing.
\<close>

theorem port_released_when_run_ends:
  assumes "run th r t0 ticks = (evs, th', Finished)"
  shows "released th' \<and> run_finally (run_finally s) = run_finally s \<and>
         (released s \<longrightarrow> run_finally s = s)"
proof -
  have "released th'"
    using assms
    by (auto simp: run_def released_run_finally
        split: sum.splits prod.splits loop_exit.splits)
  moreover have "run_finally (run_finally s) = run_finally s"
    by (rule run_finally_released) (rule released_run_finally)
  ultimately show ?thesis by (simp add: run_finally_released)
qed

text \<open>
  A session that is stopped at 0.2 seconds: the port, open during the loop, is closed
  when \<^verbatim>\<open>run\<close> returns.
\<close>

theorem port_released_when_run_ends_witness:
  "run (init ''COM3'' 9600 5) Opened 0 [quiet_tick 100000, stop_tick 200000] =
     ([], stop (sample_thread\<lparr>serial_conn := Some \<lparr>is_open = False\<rparr>\<rparr>), Finished) \<and>
   released (stop (sample_thread\<lparr>serial_conn := Some \<lparr>is_open = False\<rparr>\<rparr>)) \<and>
   \<not> released sample_thread \<and>
   run_finally (run_finally sample_thread) = run_finally sample_thread"
proof -
  have h: "run (init ''COM3'' 9600 5) Opened 0 [quiet_tick 100000, stop_tick 200000] =
     ([], stop (sample_thread\<lparr>serial_conn := Some \<lparr>is_open = False\<rparr>\<rparr>), Finished)"
    by (simp add: run_def run_open_def run_tick_def run_read_def run_check_bounded init_def
        run_finally_def close_def stop_def quiet_tick_def stop_tick_def sample_thread_def)
  have n: "\<not> released sample_thread"
    by (simp add: released_def sample_thread_def)
  show ?thesis
    using port_released_when_run_ends[OF h, of sample_thread] h n by simp
qed

subsection \<open>Starting anew\<close>

text \<open>
  Claim C9. With a port selected and both fields parsing, \<^verbatim>\<open>start_monitoring\<close> installs a
  thread that is built from the form alone: whatever thread the application held before, and
  in particular after \<^verbatim>\<open>stop_monitoring\<close>, the new one has no timestamp, no connection and is
  not running. Once its port is open, its \<^verbatim>\<open>last_received_time\<close> is the clock reading of
  its own start.
\<close>

theorem start_creates_fresh_session:
  assumes "0 < port_count f" and "baud_edit f = Some b" and "timeout_edit f = Some t"
  shows "monitor_thread (start_monitoring f app) = Some (init (current_port f) b t) \<and>
         monitor_thread (start_monitoring f (snd (stop_monitoring app))) =
           Some (init (current_port f) b t) \<and>
         last_received_time (init (current_port f) b t) = None \<and>
         (\<exists>th1. run_open (init (current_port f) b t) Opened t0 = Inr th1 \<and>
            last_received_time th1 = Some t0 \<and> is_running th1 \<and>
            timeout_seconds th1 = t)"
  using assms
  by (simp add: start_monitoring_def stop_monitoring_def run_open_def init_def
      split: option.splits)

text \<open>
  An application whose previous thread last saw data at 42 seconds starts again at 50
  seconds: the new session counts from 50 seconds.
\<close>

theorem start_creates_fresh_session_witness:
  "0 < port_count \<lparr>port_count = 1, current_port = ''COM3'', baud_edit = Some 9600,
                     timeout_edit = Some 5\<rparr> \<and>
   monitor_thread
     (start_monitoring
        \<lparr>port_count = 1, current_port = ''COM3'', baud_edit = Some 9600, timeout_edit = Some 5\<rparr>
        \<lparr>monitor_thread = Some (sample_thread\<lparr>last_received_time := Some 42000000\<rparr>)\<rparr>) =
     Some (init ''COM3'' 9600 5) \<and>
   (\<exists>th1. run_open (init ''COM3'' 9600 5) Opened 50000000 = Inr th1 \<and>
      last_received_time th1 = Some 50000000)"
proof -
  let ?f = "\<lparr>port_count = 1, current_port = ''COM3'', baud_edit = Some 9600,
             timeout_edit = Some 5\<rparr>"
  have h1: "0 < port_count ?f" and h2: "baud_edit ?f = Some 9600"
    and h3: "timeout_edit ?f = Some 5"
    by simp_all
  show ?thesis
    using start_creates_fresh_session[OF h1 h2 h3,
        of "\<lparr>monitor_thread = Some (sample_thread\<lparr>last_received_time := Some 42000000\<rparr>)\<rparr>"
           50000000]
    by auto
qed


subsection \<open>A silent connection\<close>

lemma silent_tick: "silent e \<Longrightarrow> run_tick th e = Inr (run_check th (check_now e))"
  by (simp add: silent_def run_tick_def run_read_def split: option.splits prod.splits)

lemma periods_within_Cons:
  "L \<noteq> [] \<Longrightarrow>
   periods_within lo hi (x # L) = (lo < hd L - x \<and> hd L - x \<le> hi \<and> periods_within lo hi L)"
  by (cases L) simp_all

text \<open>
  The invariant of a silent run: at the previous clock reading \<open>p\<close> no timeout was
  overdue for the baseline \<open>b\<close>.
\<close>

lemma silent_loop:
  assumes "is_running th" and "last_received_time th = Some b" and "b \<le> p"
    and "p - b \<le> timeout_seconds th * 1000000 + check_slack (timeout_seconds th)"
    and "\<forall>e\<in>set es. silent e" and "steps_within d p (map check_now es)"
  shows "\<exists>evs th' b'. run_loop th es = (evs, th', Pending) \<and>
           evs = map timeout_occurred (timeouts evs) \<and>
           last_received_time th' = Some b' \<and>
           hd (timeouts evs @ [b']) = b \<and>
           periods_within (timeout_seconds th * 1000000)
             (timeout_seconds th * 1000000 + check_slack (timeout_seconds th) + d)
             (timeouts evs @ [b']) \<and>
           last (p # map check_now es) - b'
             \<le> timeout_seconds th * 1000000 + check_slack (timeout_seconds th)"
  using assms
proof (induction es arbitrary: th b p)
  case Nil
  then show ?case by simp
next
  case (Cons e es)
  let ?T = "timeout_seconds th * 1000000"
  let ?S = "check_slack (timeout_seconds th)"
  let ?c = "check_now e"
  have sil: "silent e" and nostop: "\<not> stop_called e"
    using Cons.prems(5) by (simp_all add: silent_def)
  have pc: "p \<le> ?c" and cd: "?c - p \<le> d" and st: "steps_within d ?c (map check_now es)"
    using Cons.prems(6) by simp_all
  have rest: "\<forall>e\<in>set es. silent e" using Cons.prems(5) by simp
  show ?case
  proof (cases "run_check th ?c = ([], th)")
    case False
    define th1 where "th1 = th\<lparr>last_received_time := Some ?c\<rparr>"
    have fired: "?T < ?c - b" and ck: "run_check th ?c = ([timeout_occurred b], th1)"
      using run_check_cases[of th ?c] False Cons.prems(2) by (auto simp: th1_def)
    have tk: "run_tick th e = Inr ([timeout_occurred b], th1)"
      using ck by (simp add: silent_tick[OF sil])
    have r1: "is_running th1" and l1: "last_received_time th1 = Some ?c"
      and t1: "timeout_seconds th1 = timeout_seconds th"
      using Cons.prems(1) by (simp_all add: th1_def)
    have z: "?c - ?c \<le> timeout_seconds th1 * 1000000 + check_slack (timeout_seconds th1)"
      using Cons.prems(3,4) t1 by simp
    obtain evs' th' b' where
      lp: "run_loop th1 es = (evs', th', Pending)" and
      ev: "evs' = map timeout_occurred (timeouts evs')" and
      lb: "last_received_time th' = Some b'" and
      hd': "hd (timeouts evs' @ [b']) = ?c" and
      pw: "periods_within ?T (?T + ?S + d) (timeouts evs' @ [b'])" and
      fin: "last (?c # map check_now es) - b' \<le> ?T + ?S"
      using Cons.IH[OF r1 l1 order_refl z rest st] t1 by auto
    have step: "run_loop th (e # es) = (timeout_occurred b # evs', th', Pending)"
      using tk lp nostop Cons.prems(1) by (simp add: run_loop_Cons del: run_loop.simps)
    have gap: "?T < ?c - b \<and> ?c - b \<le> ?T + ?S + d"
      using fired cd Cons.prems(4) by simp
    have pw2: "periods_within ?T (?T + ?S + d) (b # (timeouts evs' @ [b']))"
      using gap pw hd' by (simp add: periods_within_Cons)
    show ?thesis
      using step ev lb pw2 fin by simp
  next
    case True
    have tk: "run_tick th e = Inr ([], th)"
      using True by (simp add: silent_tick[OF sil])
    have bc: "b \<le> ?c" using Cons.prems(3) pc by simp
    have le: "?c - b \<le> ?T + ?S"
    proof (rule ccontr)
      assume "\<not> ?c - b \<le> ?T + ?S"
      then have "run_check th ?c = ([timeout_occurred b], th\<lparr>last_received_time := Some ?c\<rparr>)"
        using Cons.prems(2) by (intro run_check_fires) simp_all
      then show False using True by simp
    qed
    obtain evs' th' b' where
      lp: "run_loop th es = (evs', th', Pending)" and
      ev: "evs' = map timeout_occurred (timeouts evs')" and
      lb: "last_received_time th' = Some b'" and
      hd': "hd (timeouts evs' @ [b']) = b" and
      pw: "periods_within ?T (?T + ?S + d) (timeouts evs' @ [b'])" and
      fin: "last (?c # map check_now es) - b' \<le> ?T + ?S"
      using Cons.IH[OF Cons.prems(1,2) bc le rest st] by auto
    have step: "run_loop th (e # es) = (evs', th', Pending)"
      using tk lp nostop Cons.prems(1) by (simp add: run_loop_Cons del: run_loop.simps)
    show ?thesis
      using step ev lb hd' pw fin by simp
  qed
qed

text \<open>
  Claim C7. Let the timeout be positive, the port open at \<open>t0\<close>, and let every tick
  find nothing waiting, with \<^verbatim>\<open>stop()\<close> never called and the checks at most \<open>d\<close> apart (the
  first at most \<open>d\<close> after \<open>t0\<close>). Then the session keeps running and emits
  \<^verbatim>\<open>timeout_occurred\<close> signals only. The first carries \<open>t0\<close> and each later one carries the
  time at which the one before it fired, so every firing resets the baseline; the time
  from one baseline to the next is more than \<^verbatim>\<open>timeout_seconds\<close> and at most
  \<^verbatim>\<open>timeout_seconds\<close> plus \<open>d\<close>, so each period of silence gives exactly one signal; and at
  the last check no timeout is overdue, however long the script. This is for a timeout
  below \<open>2 ^ 33\<close> seconds; for a longer one, where the elapsed seconds as a double are more
  than a microsecond apart, the two upper bounds are less than a second higher.
\<close>

theorem silent_connection_fires_periodically:
  assumes "0 < timeout_seconds th" and "\<forall>e\<in>set es. silent e"
    and "steps_within d t0 (map check_now es)"
  shows "\<exists>evs th' b'. run th Opened t0 es = (evs, th', Running) \<and>
           evs = map timeout_occurred (timeouts evs) \<and>
           last_received_time th' = Some b' \<and>
           hd (timeouts evs @ [b']) = t0 \<and>
           periods_within (timeout_seconds th * 1000000)
             (timeout_seconds th * 1000000 + check_slack (timeout_seconds th) + d)
             (timeouts evs @ [b']) \<and>
           last (t0 # map check_now es) - b'
             \<le> timeout_seconds th * 1000000 + check_slack (timeout_seconds th)"
proof -
  define th1 where "th1 = th\<lparr>serial_conn := Some \<lparr>is_open = True\<rparr>, is_running := True,
                         last_received_time := Some t0\<rparr>"
  have a: "is_running th1" "last_received_time th1 = Some t0"
    "timeout_seconds th1 = timeout_seconds th" by (simp_all add: th1_def)
  have "0 \<le> check_slack (timeout_seconds th)" by (simp add: check_slack_def)
  then have z: "t0 - t0 \<le> timeout_seconds th1 * 1000000 + check_slack (timeout_seconds th1)"
    using assms(1) a(3) by simp
  obtain evs th' b' where
      lp: "run_loop th1 es = (evs, th', Pending)" and
      rest: "evs = map timeout_occurred (timeouts evs)"
        "last_received_time th' = Some b'"
        "hd (timeouts evs @ [b']) = t0"
        "periods_within (timeout_seconds th * 1000000)
           (timeout_seconds th * 1000000 + check_slack (timeout_seconds th) + d)
           (timeouts evs @ [b'])"
        "last (t0 # map check_now es) - b'
           \<le> timeout_seconds th * 1000000 + check_slack (timeout_seconds th)"
    using silent_loop[OF a(1,2) order_refl z assms(2,3)] a(3) by auto
  have "run th Opened t0 es = (evs, th', Running)"
    using lp by (simp add: run_Opened th1_def[symmetric])
  then show ?thesis using rest by blast
qed

text \<open>
  A timeout of 5 seconds and silent ticks at 3, 5, 6, 9, 11 and 12 seconds: nothing at 5
  seconds, a signal at 6 seconds carrying \<open>0\<close>, nothing at 11 seconds, a signal at 12
  seconds carrying 6 seconds.
\<close>

theorem silent_connection_fires_periodically_witness:
  "0 < timeout_seconds (init ''COM3'' 9600 5) \<and>
   list_all silent
     (map quiet_tick [3000000, 5000000, 6000000, 9000000, 11000000, 12000000]) \<and>
   steps_within 3000000 0
     (map check_now
        (map quiet_tick [3000000, 5000000, 6000000, 9000000, 11000000, 12000000])) \<and>
   (\<exists>th'. run (init ''COM3'' 9600 5) Opened 0
            (map quiet_tick [3000000, 5000000, 6000000, 9000000, 11000000, 12000000]) =
          ([timeout_occurred 0, timeout_occurred 6000000], th', Running) \<and>
      last_received_time th' = Some 12000000 \<and>
      periods_within 5000000 8000000 [0, 6000000, 12000000])"
proof -
  let ?es = "map quiet_tick [3000000, 5000000, 6000000, 9000000, 11000000, 12000000]"
  have h1: "0 < timeout_seconds (init ''COM3'' 9600 5)" by (simp add: init_def)
  have h2: "\<forall>e\<in>set ?es. silent e" by (simp add: silent_def quiet_tick_def)
  have h3: "steps_within 3000000 0 (map check_now ?es)" by (simp add: quiet_tick_def)
  have t: "timeout_seconds (init ''COM3'' 9600 5) * 1000000 = 5000000"
    "check_slack (timeout_seconds (init ''COM3'' 9600 5)) = 0"
    by (simp_all add: init_def check_slack_def)
  obtain evs th' b' where
    r: "run (init ''COM3'' 9600 5) Opened 0 ?es = (evs, th', Running)" and
    l: "last_received_time th' = Some b'" and
    p: "periods_within 5000000 (5000000 + 0 + 3000000) (timeouts evs @ [b'])"
    using silent_connection_fires_periodically[OF h1 h2 h3] unfolding t by blast
  have c: "fst (run (init ''COM3'' 9600 5) Opened 0 ?es) =
             [timeout_occurred 0, timeout_occurred 6000000] \<and>
           last_received_time (fst (snd (run (init ''COM3'' 9600 5) Opened 0 ?es))) =
             Some 12000000"
    by (simp add: run_def run_open_def run_tick_def run_read_def run_check_bounded init_def
        quiet_tick_def)
  have "evs = [timeout_occurred 0, timeout_occurred 6000000]" and "b' = 12000000"
    using c r l by simp_all
  moreover have "list_all silent ?es" using h2 by (simp only: list_all_iff)
  ultimately show ?thesis
    using h1 h3 r l p by (intro conjI exI[of _ th']) simp_all
qed


subsection \<open>A connection that keeps sending\<close>








end
